theory Spec2Isabelle
  imports Complex_Main "HOL-Library.Word"
begin

section \<open>Numeric primitives used by the quantizers\<close>

text \<open>
  The sources compute on IEEE doubles through numpy. The model computes on \<^typ>\<open>real\<close>:
  multiplying by the power of two \<open>1 << frac_bits\<close>, rounding to an integral value and
  clipping are exact on doubles, so the real-valued model agrees with the code on every
  finite double whose scaled value does not overflow. NaN and infinities are outside the model.
\<close>

text \<open>\<open>np.round\<close>: round to the nearest integral value, ties to the even one. The integral
  double is represented by its integer value.\<close>

definition np_round :: "real \<Rightarrow> int" where
  "np_round y =
     (let f = \<lfloor>y\<rfloor>; d = y - of_int f
      in if d < 1 / 2 then f
         else if 1 / 2 < d then f + 1
         else if even f then f else f + 1)"

text \<open>\<open>.astype(np.int32)\<close> applied to an integral double. Inside the int32 range the value
  is kept. Outside it the C conversion is undefined; numpy's cast loop on x86-64 yields the
  "integer indefinite" pattern \<open>-2^31\<close>, which is what the out-of-range branch returns.\<close>

definition astype_int32 :: "int \<Rightarrow> int" where
  "astype_int32 v = (if - (2 ^ 31) \<le> v \<and> v < 2 ^ 31 then v else - (2 ^ 31))"

text \<open>\<open>np.clip(a, a_min, a_max)\<close> is \<open>minimum(a_max, maximum(a, a_min))\<close>.\<close>

definition np_clip :: "'a::linorder \<Rightarrow> 'a \<Rightarrow> 'a \<Rightarrow> 'a" where
  "np_clip a a_min a_max = min a_max (max a a_min)"

text \<open>\<open>.astype(np.int16)\<close> applied to an integer array: the low 16 bits, read as two's
  complement.\<close>

definition astype_int16 :: "int \<Rightarrow> int" where
  "astype_int16 v = (v + 2 ^ 15) mod 2 ^ 16 - 2 ^ 15"

text \<open>\<open>np.uint16(c)\<close> of a numpy integer scalar: the low 16 bits, read as unsigned.\<close>

definition np_uint16 :: "int \<Rightarrow> nat" where
  "np_uint16 c = nat (c mod 2 ^ 16)"

section \<open>Coefficient quantizer (filter\_design.py, lines 37-46)\<close>

text \<open>Lines 37-41, for one coefficient:
  \<^verbatim>\<open>scale = 1 << frac_bits\<close>,
  \<^verbatim>\<open>b_q = np.round(b_float * scale).astype(np.int32)\<close>,
  \<^verbatim>\<open>b_q = np.clip(b_q, -32768, 32767).astype(np.int16)\<close>.\<close>

definition quantize1 :: "real \<Rightarrow> nat \<Rightarrow> int" where
  "quantize1 x frac_bits =
     (let scale = (2::int) ^ frac_bits;
          b_q = astype_int32 (np_round (x * of_int scale))
      in astype_int16 (np_clip b_q (- 32768) 32767))"

definition quantize :: "real list \<Rightarrow> nat \<Rightarrow> int list" where
  "quantize b_float frac_bits = map (\<lambda>x. quantize1 x frac_bits) b_float"

text \<open>Line 46: \<^verbatim>\<open>b_rec = b_q.astype(np.float64) / scale\<close>.\<close>

definition dequantize1 :: "int \<Rightarrow> nat \<Rightarrow> real" where
  "dequantize1 q frac_bits = of_int q / of_int ((2::int) ^ frac_bits)"

definition dequantize :: "int list \<Rightarrow> nat \<Rightarrow> real list" where
  "dequantize b_q frac_bits = map (\<lambda>q. dequantize1 q frac_bits) b_q"

section \<open>Harness conversions (test\_fir.py, lines 10-20)\<close>

definition FRAC_BITS :: nat where
  "FRAC_BITS = 15"

definition SCALE :: int where
  "SCALE = 2 ^ FRAC_BITS"

text \<open>\<open>.astype(np.int16)\<close> applied to an integral double goes through the 32-bit
  conversion and keeps the low 16 bits.\<close>

definition float_to_q15_1 :: "real \<Rightarrow> int" where
  "float_to_q15_1 x =
     (let x' = np_clip x (- 0.999969) 0.999969
      in astype_int16 (astype_int32 (np_round (x' * of_int SCALE))))"

definition float_to_q15 :: "real list \<Rightarrow> int list" where
  "float_to_q15 x = map float_to_q15_1 x"

definition q15_to_float_1 :: "int \<Rightarrow> real" where
  "q15_to_float_1 q = of_int (astype_int16 q) / of_int SCALE"

definition q15_to_float :: "int list \<Rightarrow> real list" where
  "q15_to_float q = map q15_to_float_1 q"

section \<open>Specification-side notions for the quantizer\<close>

text \<open>An integer \<open>q\<close> is the round-half-to-even rounding of \<open>y\<close>: it is a nearest integer,
  and it is even when \<open>y\<close> lies exactly half way between two integers.\<close>

definition is_round_half_even :: "int \<Rightarrow> real \<Rightarrow> bool" where
  "is_round_half_even q y \<longleftrightarrow>
     \<bar>of_int q - y\<bar> \<le> 1 / 2 \<and> (\<bar>of_int q - y\<bar> = 1 / 2 \<longrightarrow> even q)"

text \<open>The number of input values that the clamp of line 41 changes: the saturation count the
  specification speaks of.\<close>

definition was_clamped :: "real \<Rightarrow> nat \<Rightarrow> bool" where
  "was_clamped x frac_bits =
     (let b_q = astype_int32 (np_round (x * of_int ((2::int) ^ frac_bits)))
      in np_clip b_q (- 32768) 32767 \<noteq> b_q)"

definition saturation_count :: "real list \<Rightarrow> nat \<Rightarrow> nat" where
  "saturation_count b_float frac_bits = length (filter (\<lambda>x. was_clamped x frac_bits) b_float)"

section \<open>Hex coefficient export (filter\_design.py, lines 80-89)\<close>

text \<open>The format specification \<^verbatim>\<open>04X\<close>: uppercase hexadecimal digits, most significant
  first, padded on the left with \<open>0\<close> to a minimum width of four.\<close>

definition hex_digit_upper :: "nat \<Rightarrow> char" where
  "hex_digit_upper d = (if d < 10 then char_of (48 + d) else char_of (55 + d))"

fun format_X :: "nat \<Rightarrow> string" where
  "format_X n =
     (if n < 16 then [hex_digit_upper n]
      else format_X (n div 16) @ [hex_digit_upper (n mod 16)])"

declare format_X.simps [simp del]

definition zero_pad :: "nat \<Rightarrow> string \<Rightarrow> string" where
  "zero_pad w s = replicate (w - length s) (CHR ''0'') @ s"

definition format_04X :: "nat \<Rightarrow> string" where
  "format_04X n = zero_pad 4 (format_X n)"

definition newline :: char where
  "newline = CHR 0x0A"

text \<open>The loop \<^verbatim>\<open>for c in coeffs: f.write(f"{np.uint16(c):04X}\n")\<close>; the result is the text
  written to the file.\<close>

fun export_coeffs_hex :: "int list \<Rightarrow> string" where
  "export_coeffs_hex [] = []"
| "export_coeffs_hex (c # coeffs) =
     (format_04X (np_uint16 c) @ [newline]) @ export_coeffs_hex coeffs"

text \<open>Lines 92-100: \<^verbatim>\<open>f.write(f"{int(c)}\n")\<close> is outside the claims and not modelled.\<close>

section \<open>Hex coefficient import (debug\_filter.py, lines 27-35)\<close>

datatype py_error = IndexError | ZeroDivisionError | ValueError

text \<open>\<open>f.readlines()\<close>: the text is cut after every newline; a last piece without newline
  is a line too.\<close>

fun readlines_from :: "string \<Rightarrow> string \<Rightarrow> string list" where
  "readlines_from cur [] = (if cur = [] then [] else [cur])"
| "readlines_from cur (c # cs) =
     (if c = newline then (cur @ [c]) # readlines_from [] cs
      else readlines_from (cur @ [c]) cs)"

definition readlines :: "string \<Rightarrow> string list" where
  "readlines text = readlines_from [] text"

text \<open>\<open>str.strip()\<close> removes leading and trailing whitespace (the ASCII whitespace
  characters: 0x09-0x0D, 0x1C-0x1F and the blank).\<close>

definition is_space :: "char \<Rightarrow> bool" where
  "is_space c = (let k = (of_char c :: nat) in (9 \<le> k \<and> k \<le> 13) \<or> (28 \<le> k \<and> k \<le> 32))"

definition strip :: "string \<Rightarrow> string" where
  "strip s = rev (dropWhile is_space (rev (dropWhile is_space s)))"

text \<open>\<open>int(s, 16)\<close>: surrounding whitespace, an optional sign, an optional prefix \<open>0x\<close> or
  \<open>0X\<close>, then hexadecimal digits of either case, where single underscores may stand
  between digits and after the prefix. Anything else raises ValueError.\<close>

definition hex_val :: "char \<Rightarrow> nat option" where
  "hex_val c =
     (let k = (of_char c :: nat)
      in if 48 \<le> k \<and> k \<le> 57 then Some (k - 48)
         else if 65 \<le> k \<and> k \<le> 70 then Some (k - 55)
         else if 97 \<le> k \<and> k \<le> 102 then Some (k - 87)
         else None)"

fun parse_digits :: "nat \<Rightarrow> bool \<Rightarrow> string \<Rightarrow> nat option" where
  "parse_digits acc after_digit [] = (if after_digit then Some acc else None)"
| "parse_digits acc after_digit (c # cs) =
     (if c = CHR ''_'' then (if after_digit then parse_digits acc False cs else None)
      else case hex_val c of
             None \<Rightarrow> None
           | Some d \<Rightarrow> parse_digits (acc * 16 + d) True cs)"

definition parse_unsigned :: "string \<Rightarrow> nat option" where
  "parse_unsigned s =
     (case s of
        c0 # c1 # rest \<Rightarrow>
          if c0 = CHR ''0'' \<and> (c1 = CHR ''x'' \<or> c1 = CHR ''X'')
          then (if rest = [] then None else parse_digits 0 True rest)
          else parse_digits 0 False s
      | _ \<Rightarrow> parse_digits 0 False s)"

definition int_base16 :: "string \<Rightarrow> py_error + int" where
  "int_base16 s =
     (let t = strip s;
          neg = (t \<noteq> [] \<and> hd t = CHR ''-'');
          body = (if t \<noteq> [] \<and> (hd t = CHR ''-'' \<or> hd t = CHR ''+'') then tl t else t)
      in case parse_unsigned body of
           None \<Rightarrow> Inl ValueError
         | Some n \<Rightarrow> Inr (if neg then - int n else int n))"

text \<open>The loop of lines 30-35 over the lines read; an exception leaves the loop (it is
  caught by the \<open>except\<close> of line 45, and no coefficients are produced).\<close>

fun import_lines :: "string list \<Rightarrow> int list \<Rightarrow> py_error + int list" where
  "import_lines [] coeffs = Inr coeffs"
| "import_lines (line # lines) coeffs =
     (case int_base16 (strip line) of
        Inl e \<Rightarrow> Inl e
      | Inr val \<Rightarrow>
          (let val' = (if val > 32767 then val - 65536 else val)
           in import_lines lines (coeffs @ [val'])))"

definition import_hex :: "string \<Rightarrow> py_error + int list" where
  "import_hex text = import_lines (readlines text) []"

text \<open>Specification-side reading of a line of hex digits, most significant first.\<close>

definition upper_hex_digits :: "char set" where
  "upper_hex_digits = set ''0123456789ABCDEF''"

definition hex_value :: "string \<Rightarrow> nat" where
  "hex_value s = foldl (\<lambda>a c. 16 * a + (case hex_val c of Some d \<Rightarrow> d | None \<Rightarrow> 0)) 0 s"

definition twos_complement16 :: "int \<Rightarrow> nat" where
  "twos_complement16 c = nat (if c < 0 then c + 2 ^ 16 else c)"

section \<open>Streaming harness (test\_fir.py, lines 66-105)\<close>

text \<open>The signals the harness drives. A value written to a signal stays until it is
  written again.\<close>

record dut_inputs =
  rst :: bool
  s_axis_fir_tdata :: int
  s_axis_fir_tvalid :: bool
  m_axis_fir_tready :: bool

text \<open>The device under test is hardware outside the Python sources. It is a parameter: a
  state type, the effect of one rising clock edge under the driven inputs, and the two
  output signals read from the state. The data port is 16 bits wide;
  \<open>.signed_integer\<close> reads it as two's complement.\<close>

record 's dut =
  rising_edge :: "dut_inputs \<Rightarrow> 's \<Rightarrow> 's"
  m_axis_fir_tvalid :: "'s \<Rightarrow> bool"
  m_axis_fir_tdata :: "'s \<Rightarrow> 16 word"












definition valid_outputs :: "'s dut \<Rightarrow> 's list \<Rightarrow> int list" where
  "valid_outputs d states =
     map (\<lambda>s. sint (m_axis_fir_tdata d s)) (filter (m_axis_fir_tvalid d) states)"


section \<open>Filter design (filter\_design.py, lines 9-59)\<close>

text \<open>\<open>scipy.signal.firwin\<close> is a library function outside the sources. The model follows
  its algorithm for the call made at line 27 (two cutoffs, \<open>pass_zero=False\<close>, Hamming
  window, scaling on), over the reals: the checks of the cutoffs (ValueError when a cutoff is
  not strictly between 0 and 1 or the cutoffs do not increase), the windowed difference of
  two sinc kernels, and the normalisation to unit gain at the centre of the passband. A
  negative number of taps is refused with ValueError by the window function; zero taps give
  an empty kernel. Where the normalising sum \<open>s\<close> is zero numpy divides into infinities and
  the model into zeros; no statement below depends on that case.\<close>

definition sinc :: "real \<Rightarrow> real" where
  "sinc x = (if x = 0 then 1 else sin (pi * x) / (pi * x))"

text \<open>\<open>get_window("hamming", M, fftbins=False)\<close>: ones for \<open>M \<le> 1\<close>, otherwise
  \<open>0.54 + 0.46 * cos(fac)\<close> on \<open>fac = linspace(-pi, pi, M)\<close>.\<close>

definition hamming :: "nat \<Rightarrow> real list" where
  "hamming M =
     (if M \<le> 1 then replicate M 1
      else map (\<lambda>i. 0.54 + 0.46 * cos (- pi + real i * (2 * pi / real (M - 1)))) [0..<M])"

definition firwin :: "int \<Rightarrow> real \<Rightarrow> real \<Rightarrow> py_error + real list" where
  "firwin numtaps left right =
     (if min left right \<le> 0 \<or> max left right \<ge> 1 then Inl ValueError
      else if right - left \<le> 0 then Inl ValueError
      else if numtaps < 0 then Inl ValueError
      else
        let N = nat numtaps;
            alpha = 0.5 * (real_of_int numtaps - 1);
            m = map (\<lambda>i. real i - alpha) [0..<N];
            h = map (\<lambda>mi. right * sinc (right * mi) - left * sinc (left * mi)) m;
            win = hamming N;
            h = map (\<lambda>(a, b). a * b) (zip h win);
            scale_frequency =
              (if left = 0 then 0 else if right = 1 then 1 else 0.5 * (left + right));
            c = map (\<lambda>mi. cos (pi * mi * scale_frequency)) m;
            s = sum_list (map (\<lambda>(a, b). a * b) (zip h c))
        in Inr (map (\<lambda>a. a / s) h))"

text \<open>\<open>design_bandpass_fir_filter\<close>. \<open>fc[0] / nyquist\<close> raises IndexError on a missing
  edge and ZeroDivisionError when \<open>fs = 0\<close>; \<open>1 << frac_bits\<close> raises ValueError on a
  negative count; \<open>np.max(b_q)\<close> in the summary of line 54 raises ValueError on an empty
  array. The frequency response of lines 47 and 56 is printed only and is not modelled.\<close>

definition design_bandpass_fir_filter ::
  "int \<Rightarrow> real list \<Rightarrow> int \<Rightarrow> int \<Rightarrow> py_error + (int list \<times> real list \<times> real list)" where
  "design_bandpass_fir_filter fs fc numtaps frac_bits =
     (let nyquist = 0.5 * real_of_int fs
      in case fc of
           [] \<Rightarrow> Inl IndexError
         | f0 # fc' \<Rightarrow>
             if nyquist = 0 then Inl ZeroDivisionError
             else (case fc' of
                     [] \<Rightarrow> Inl IndexError
                   | f1 # _ \<Rightarrow>
                       (case firwin numtaps (f0 / nyquist) (f1 / nyquist) of
                          Inl e \<Rightarrow> Inl e
                        | Inr b_float \<Rightarrow>
                            if frac_bits < 0 then Inl ValueError
                            else
                              let b_q = quantize b_float (nat frac_bits);
                                  b_rec = dequantize b_q (nat frac_bits)
                              in if b_q = [] then Inl ValueError
                                 else Inr (b_q, b_rec, b_float))))"

text \<open>The coefficient \<open>i\<close> of the kernel of \<open>firwin\<close> before the final normalisation.\<close>

definition firwin_tap :: "nat \<Rightarrow> real \<Rightarrow> real \<Rightarrow> nat \<Rightarrow> real" where
  "firwin_tap N left right i =
     (right * sinc (right * (real i - 0.5 * (real N - 1)))
        - left * sinc (left * (real i - 0.5 * (real N - 1)))) * (hamming N ! i)"

section \<open>Rounding and the quantizers\<close>

subsection \<open>Facts about the rounding primitive\<close>

lemma np_round_err: "\<bar>of_int (np_round y) - y\<bar> \<le> 1 / 2"
  unfolding np_round_def Let_def by (auto; linarith)

lemma np_round_tie: "\<bar>of_int (np_round y) - y\<bar> = 1 / 2 \<Longrightarrow> even (np_round y)"
  unfolding np_round_def Let_def by (auto split: if_splits; linarith)

lemma np_round_upper: "y \<le> of_int n \<Longrightarrow> np_round y \<le> n"
proof -
  assume a: "y \<le> of_int n"
  have "real_of_int (np_round y) \<le> y + 1 / 2" using np_round_err [of y] by linarith
  then have "real_of_int (np_round y) < real_of_int (n + 1)" using a by simp
  then have "np_round y < n + 1" by (simp only: of_int_less_iff)
  then show ?thesis by simp
qed

lemma np_round_lower: "of_int n \<le> y \<Longrightarrow> n \<le> np_round y"
proof -
  assume a: "of_int n \<le> y"
  have "y - 1 / 2 \<le> real_of_int (np_round y)" using np_round_err [of y] by linarith
  then have "real_of_int (n - 1) < real_of_int (np_round y)" using a by simp
  then have "n - 1 < np_round y" by (simp only: of_int_less_iff)
  then show ?thesis by simp
qed

lemma astype_int16_id: "- 32768 \<le> v \<Longrightarrow> v \<le> 32767 \<Longrightarrow> astype_int16 v = v"
  by (simp add: astype_int16_def)

lemma astype_int32_id: "- 2147483648 \<le> v \<Longrightarrow> v \<le> 2147483647 \<Longrightarrow> astype_int32 v = v"
  by (simp add: astype_int32_def)

lemma quantize1_in_range:
  assumes "- 32768 \<le> x * 2 ^ fb" and "x * 2 ^ fb \<le> 32767"
  shows "quantize1 x fb = np_round (x * 2 ^ fb)"
proof -
  have lo: "- 32768 \<le> np_round (x * 2 ^ fb)" using assms(1) np_round_lower [of "- 32768" "x * 2 ^ fb"] by simp
  have hi: "np_round (x * 2 ^ fb) \<le> 32767" using assms(2) np_round_upper [of "x * 2 ^ fb" 32767] by simp
  show ?thesis using lo hi
    by (simp add: quantize1_def Let_def astype_int32_id astype_int16_id np_clip_def)
qed

lemma float_to_q15_1_eq:
  "float_to_q15_1 x = np_round (np_clip x (- 0.999969) 0.999969 * 32768)"
proof -
  let ?c = "np_clip x (- 0.999969) 0.999969 :: real"
  have c: "- 0.999969 \<le> ?c" "?c \<le> 0.999969" by (auto simp: np_clip_def)
  have lo: "- 32767 \<le> np_round (?c * 32768)" using c np_round_lower [of "- 32767" "?c * 32768"] by simp
  have hi: "np_round (?c * 32768) \<le> 32767" using c np_round_upper [of "?c * 32768" 32767] by simp
  show ?thesis using lo hi
    by (simp add: float_to_q15_1_def Let_def SCALE_def FRAC_BITS_def astype_int32_id astype_int16_id)
qed

lemma float_to_q15_1_range: "- 32767 \<le> float_to_q15_1 x \<and> float_to_q15_1 x \<le> 32767"
proof -
  let ?c = "np_clip x (- 0.999969) 0.999969 :: real"
  have c: "- 0.999969 \<le> ?c" "?c \<le> 0.999969" by (auto simp: np_clip_def)
  have lo: "- 32767 \<le> np_round (?c * 32768)" using c np_round_lower [of "- 32767" "?c * 32768"] by simp
  have hi: "np_round (?c * 32768) \<le> 32767" using c np_round_upper [of "?c * 32768" 32767] by simp
  show ?thesis using lo hi by (simp add: float_to_q15_1_eq)
qed


lemma float_to_q15_1_hi:
  assumes "0.999969 \<le> x"
  shows "float_to_q15_1 x = 32767"
proof -
  have "np_clip x (- 0.999969) 0.999969 = (0.999969::real)"
    using assms by (simp add: np_clip_def)
  then have "float_to_q15_1 x = np_round (0.999969 * 32768)"
    by (simp only: float_to_q15_1_eq)
  also have "\<dots> = 32767" by (simp add: np_round_def Let_def)
  finally show ?thesis .
qed

lemma float_to_q15_1_lo:
  assumes "x \<le> - 0.999969"
  shows "float_to_q15_1 x = - 32767"
proof -
  have "np_clip x (- 0.999969) 0.999969 = (- 0.999969::real)"
    using assms by (simp add: np_clip_def)
  then have "float_to_q15_1 x = np_round (- 0.999969 * 32768)"
    by (simp only: float_to_q15_1_eq)
  also have "\<dots> = - 32767" by (simp add: np_round_def Let_def)
  finally show ?thesis .
qed

subsection \<open>Round trip through the quantizer\<close>

text \<open>
  Claim C1. A value whose scaled magnitude is representable comes back from quantization and
  dequantization with an error of at most half a quantization step, \<open>1 / (2 * scale)\<close>.
  For the coefficient quantizer (lines 37-46 of filter\_design.py) the representable range of
  the scaled value is \<open>[-32768, 32767]\<close> and the number of fractional bits is arbitrary; for
  the harness pair \<open>float_to_q15\<close> and \<open>q15_to_float\<close> the scale is \<open>2^15\<close> and the
  representable range is \<open>[-32767, 32767]\<close>, the range of \<open>float_to_q15\<close>.
\<close>

theorem quantize_roundtrip_error:
  "(- 32768 \<le> x * 2 ^ fb \<and> x * 2 ^ fb \<le> 32767 \<longrightarrow>
      \<bar>dequantize1 (quantize1 x fb) fb - x\<bar> \<le> 1 / (2 * 2 ^ fb)) \<and>
   (\<bar>x * 2 ^ 15\<bar> \<le> 32767 \<longrightarrow>
      \<bar>q15_to_float_1 (float_to_q15_1 x) - x\<bar> \<le> 1 / (2 * 2 ^ 15))"
proof (intro conjI impI)
  assume r: "- 32768 \<le> x * 2 ^ fb \<and> x * 2 ^ fb \<le> 32767"
  let ?y = "x * 2 ^ fb"
  have q: "quantize1 x fb = np_round ?y" using r by (simp add: quantize1_in_range)
  have e: "dequantize1 (quantize1 x fb) fb - x = (of_int (np_round ?y) - ?y) / 2 ^ fb"
    by (simp add: q dequantize1_def field_simps)
  have "\<bar>dequantize1 (quantize1 x fb) fb - x\<bar> = \<bar>(of_int (np_round ?y) - ?y) / 2 ^ fb\<bar>"
    by (simp only: e)
  also have "\<dots> = \<bar>of_int (np_round ?y) - ?y\<bar> / 2 ^ fb"
    by simp
  also have "\<dots> \<le> (1 / 2) / 2 ^ fb"
    by (rule divide_right_mono [OF np_round_err]) simp
  finally show "\<bar>dequantize1 (quantize1 x fb) fb - x\<bar> \<le> 1 / (2 * 2 ^ fb)" by simp
next
  assume r: "\<bar>x * 2 ^ 15\<bar> \<le> 32767"
  let ?c = "np_clip x (- 0.999969) 0.999969 :: real"
  let ?q = "float_to_q15_1 x"
  have rng: "- 32767 \<le> ?q" "?q \<le> 32767" using float_to_q15_1_range [of x] by simp_all
  have deq: "q15_to_float_1 ?q = of_int ?q / 32768"
    using rng by (simp add: q15_to_float_1_def astype_int16_id SCALE_def FRAC_BITS_def)
  have near: "\<bar>of_int ?q - x * 32768\<bar> \<le> 1 / 2"
  proof (cases "\<bar>x\<bar> \<le> 0.999969")
    case True
    then have "?c = x" by (auto simp: np_clip_def)
    then show ?thesis using np_round_err [of "x * 32768"] by (simp add: float_to_q15_1_eq)
  next
    case False
    show ?thesis
    proof (cases "0 \<le> x")
      case True
      with False have "?q = 32767" by (simp add: float_to_q15_1_hi)
      then show ?thesis using r False True by simp
    next
      case neg: False
      with False have "?q = - 32767" by (simp add: float_to_q15_1_lo)
      then show ?thesis using r False neg by simp
    qed
  qed
  have e: "q15_to_float_1 ?q - x = (of_int ?q - x * 32768) / 32768"
    by (simp add: deq field_simps)
  have "\<bar>q15_to_float_1 ?q - x\<bar> = \<bar>(of_int ?q - x * 32768) / 32768\<bar>"
    by (simp only: e)
  also have "\<dots> = \<bar>of_int ?q - x * 32768\<bar> / 32768"
    by simp
  also have "\<dots> \<le> (1 / 2) / 32768"
    by (rule divide_right_mono [OF near]) simp
  finally show "\<bar>q15_to_float_1 ?q - x\<bar> \<le> 1 / (2 * 2 ^ 15)" by simp
qed

theorem quantize_roundtrip_error_witness:
  "- 32768 \<le> (1 / 10 :: real) * 2 ^ 15 \<and> (1 / 10 :: real) * 2 ^ 15 \<le> 32767 \<and>
   \<bar>dequantize1 (quantize1 (1 / 10) 15) 15 - 1 / 10\<bar> \<le> 1 / (2 * 2 ^ 15) \<and>
   \<bar>(- (1 / 3) :: real) * 2 ^ 15\<bar> \<le> 32767 \<and>
   \<bar>q15_to_float_1 (float_to_q15_1 (- (1 / 3))) - (- (1 / 3))\<bar> \<le> 1 / (2 * 2 ^ 15)"
  using quantize_roundtrip_error [of "1 / 10" 15] quantize_roundtrip_error [of "- (1 / 3)" 15]
  by simp

subsection \<open>Range of the harness quantizer\<close>

text \<open>
  Claim C10. Every sample produced by \<open>float_to_q15\<close> lies in \<open>[-32767, 32767]\<close>, whatever
  the real input: the input is clamped to \<open>[-0.999969, 0.999969]\<close> before it is scaled and
  rounded, so the most negative 16-bit word \<open>-32768\<close> is never produced.
\<close>

theorem float_to_q15_range:
  "\<forall>q \<in> set (float_to_q15 x). - 32767 \<le> q \<and> q \<le> 32767"
  by (simp add: float_to_q15_def float_to_q15_1_range)

theorem float_to_q15_range_witness:
  "float_to_q15 [- 5, 1 / 2, 3] = [- 32767, 16384, 32767] \<and>
   - 32767 \<le> float_to_q15 [- 5, 1 / 2, 3] ! 0 \<and> float_to_q15 [- 5, 1 / 2, 3] ! 0 \<le> 32767 \<and>
   - 32767 \<le> float_to_q15 [- 5, 1 / 2, 3] ! 1 \<and> float_to_q15 [- 5, 1 / 2, 3] ! 1 \<le> 32767 \<and>
   - 32767 \<le> float_to_q15 [- 5, 1 / 2, 3] ! 2 \<and> float_to_q15 [- 5, 1 / 2, 3] ! 2 \<le> 32767"
proof -
  have v: "float_to_q15 [- 5, 1 / 2, 3] = [- 32767, 16384, 32767]"
    by (simp add: float_to_q15_def float_to_q15_1_eq np_clip_def np_round_def Let_def)
  have "\<forall>q \<in> set (float_to_q15 [- 5, 1 / 2, 3]). - 32767 \<le> q \<and> q \<le> 32767"
    by (rule float_to_q15_range)
  then show ?thesis by (simp add: v)
qed

subsection \<open>Saturation\<close>

lemma np_round_eqI: "\<bar>y - of_int n\<bar> < 1 / 2 \<Longrightarrow> np_round y = n"
proof -
  assume a: "\<bar>y - of_int n\<bar> < 1 / 2"
  have e: "\<bar>of_int (np_round y) - y\<bar> \<le> 1 / 2" by (rule np_round_err)
  have "\<bar>real_of_int (np_round y) - real_of_int n\<bar> < 1" using a e by linarith
  then have "\<bar>real_of_int (np_round y - n)\<bar> < real_of_int 1" by simp
  then have "\<bar>np_round y - n\<bar> < 1" by (simp only: of_int_abs [symmetric] of_int_less_iff)
  then show ?thesis by simp
qed

lemma np_round_half_even: "even n \<Longrightarrow> np_round (of_int n + 1 / 2) = n"
  by (simp add: np_round_def Let_def)

lemma np_round_half_odd: "odd n \<Longrightarrow> np_round (of_int n + 1 / 2) = n + 1"
  by (simp add: np_round_def Let_def)

lemma quantize1_sat_hi:
  assumes "32767 \<le> x * 2 ^ fb" and "x * 2 ^ fb \<le> 2147483647"
  shows "quantize1 x fb = 32767"
proof -
  have lo: "32767 \<le> np_round (x * 2 ^ fb)"
    using assms(1) np_round_lower [of 32767 "x * 2 ^ fb"] by simp
  have hi: "np_round (x * 2 ^ fb) \<le> 2147483647"
    using assms(2) np_round_upper [of "x * 2 ^ fb" 2147483647] by simp
  show ?thesis
    using lo hi by (simp add: quantize1_def Let_def astype_int32_id np_clip_def astype_int16_id)
qed

lemma quantize1_sat_lo:
  assumes "x * 2 ^ fb \<le> - 32768" and "- 2147483648 \<le> x * 2 ^ fb"
  shows "quantize1 x fb = - 32768"
proof -
  have hi: "np_round (x * 2 ^ fb) \<le> - 32768"
    using assms(1) np_round_upper [of "x * 2 ^ fb" "- 32768"] by simp
  have lo: "- 2147483648 \<le> np_round (x * 2 ^ fb)"
    using assms(2) np_round_lower [of "- 2147483648" "x * 2 ^ fb"] by simp
  show ?thesis
    using lo hi by (simp add: quantize1_def Let_def astype_int32_id np_clip_def astype_int16_id)
qed

lemma was_clamped_iff:
  "was_clamped x fb \<longleftrightarrow> \<not> (- 32768 \<le> np_round (x * 2 ^ fb) \<and> np_round (x * 2 ^ fb) \<le> 32767)"
  by (auto simp: was_clamped_def Let_def astype_int32_def np_clip_def)

lemma quantize1_evalI:
  assumes "\<bar>x * 2 ^ fb - of_int n\<bar> < 1 / 2" and "- 32768 \<le> n" and "n \<le> 32767"
  shows "quantize1 x fb = n"
proof -
  have "np_round (x * 2 ^ fb) = n" using assms(1) by (rule np_round_eqI)
  then show ?thesis
    using assms(2,3)
    by (simp add: quantize1_def Let_def astype_int32_id np_clip_def astype_int16_id)
qed

lemma quantize1_example: "quantize1 0.99997 15 = 32767"
  by (rule quantize1_evalI) simp_all

text \<open>
  The harness quantizer saturates a value below the range to \<open>-32767\<close>, not to the boundary
  \<open>-2^(wordBits-1) = -32768\<close> that claim C3 names.
\<close>

theorem saturation_boundary_counterexample:
  "32768 < \<bar>(- 2) * 2 ^ 15 :: real\<bar> \<and> float_to_q15_1 (- 2) = - 32767 \<and>
   float_to_q15_1 (- 2) \<noteq> - (2 ^ (16 - 1))"
  by (simp add: float_to_q15_1_lo)

text \<open>
  Claim C3, amended. The coefficient quantizer returns exactly the boundary value, \<open>32767\<close>
  or \<open>-32768\<close>, for every value whose scaled magnitude exceeds \<open>2^15\<close> and whose scaled value
  still lies within the 32-bit range of the intermediate conversion. The harness quantizer
  \<open>float_to_q15\<close> returns \<open>32767\<close> or \<open>-32767\<close> for every value whose scaled magnitude
  exceeds \<open>2^15\<close>. Quantizing \<open>0.99997\<close> at 15 fractional bits yields \<open>32767\<close> in both.
\<close>

theorem quantize_saturates:
  "(32768 < x * 2 ^ fb \<and> x * 2 ^ fb \<le> 2147483647 \<longrightarrow> quantize1 x fb = 32767) \<and>
   (x * 2 ^ fb < - 32768 \<and> - 2147483648 \<le> x * 2 ^ fb \<longrightarrow> quantize1 x fb = - 32768) \<and>
   (32768 < x * 2 ^ 15 \<longrightarrow> float_to_q15_1 x = 32767) \<and>
   (x * 2 ^ 15 < - 32768 \<longrightarrow> float_to_q15_1 x = - 32767) \<and>
   quantize1 0.99997 15 = 32767 \<and> float_to_q15_1 0.99997 = 32767"
proof (intro conjI impI)
  assume "32768 < x * 2 ^ fb \<and> x * 2 ^ fb \<le> 2147483647"
  then show "quantize1 x fb = 32767" by (simp add: quantize1_sat_hi)
next
  assume "x * 2 ^ fb < - 32768 \<and> - 2147483648 \<le> x * 2 ^ fb"
  then show "quantize1 x fb = - 32768" by (simp add: quantize1_sat_lo)
next
  assume "32768 < x * 2 ^ 15"
  then show "float_to_q15_1 x = 32767" by (simp add: float_to_q15_1_hi)
next
  assume "x * 2 ^ 15 < - 32768"
  then show "float_to_q15_1 x = - 32767" by (simp add: float_to_q15_1_lo)
next
  show "quantize1 0.99997 15 = 32767" by (rule quantize1_example)
next
  show "float_to_q15_1 0.99997 = 32767" by (simp add: float_to_q15_1_hi)
qed

theorem quantize_saturates_witness:
  "32768 < (2::real) * 2 ^ 15 \<and> (2::real) * 2 ^ 15 \<le> 2147483647 \<and> quantize1 2 15 = 32767 \<and>
   (- 2::real) * 2 ^ 15 < - 32768 \<and> - 2147483648 \<le> (- 2::real) * 2 ^ 15 \<and>
   quantize1 (- 2) 15 = - 32768 \<and>
   float_to_q15_1 2 = 32767 \<and> float_to_q15_1 (- 2) = - 32767"
  using quantize_saturates [of 2 15] quantize_saturates [of "- 2" 15] by simp

subsection \<open>Rounding mode\<close>

lemma quantize1_tenth: "quantize1 0.1 3 = 1"
  by (rule quantize1_evalI) simp_all

lemma quantize1_fifth: "quantize1 0.2 3 = 2"
  by (rule quantize1_evalI) simp_all

lemma quantize1_two_fifths: "quantize1 0.4 3 = 3"
  by (rule quantize1_evalI) simp_all

lemma quantize1_tie_down: "quantize1 (5 / 16) 3 = 2"
proof -
  have "quantize1 (5 / 16) 3 = np_round (5 / 16 * 2 ^ 3)" by (rule quantize1_in_range) simp_all
  also have "\<dots> = np_round (of_int 2 + 1 / 2)" by simp
  also have "\<dots> = 2" by (rule np_round_half_even) simp
  finally show ?thesis .
qed

lemma quantize1_tie_up: "quantize1 (7 / 16) 3 = 4"
proof -
  have "quantize1 (7 / 16) 3 = np_round (7 / 16 * 2 ^ 3)" by (rule quantize1_in_range) simp_all
  also have "\<dots> = np_round (of_int 3 + 1 / 2)" by simp
  also have "\<dots> = 3 + 1" by (rule np_round_half_odd) simp
  finally show ?thesis by simp
qed

text \<open>
  Claim C4. Quantization rounds each scaled value to the nearest integer, and to the even one
  when the scaled value lies half way between two integers: this holds for the coefficient
  quantizer on every value whose scaled value is representable, and for the harness quantizer
  on every value inside its clamp. With three fractional bits the coefficients
  \<open>[0.1, 0.2, 0.4, 0.2, 0.1]\<close> quantize to \<open>[1, 2, 3, 2, 1]\<close>.
\<close>

theorem quantize_rounds_half_even:
  "(- 32768 \<le> x * 2 ^ fb \<and> x * 2 ^ fb \<le> 32767 \<longrightarrow>
      is_round_half_even (quantize1 x fb) (x * 2 ^ fb)) \<and>
   (\<bar>x\<bar> \<le> 0.999969 \<longrightarrow> is_round_half_even (float_to_q15_1 x) (x * 2 ^ 15)) \<and>
   quantize [0.1, 0.2, 0.4, 0.2, 0.1] 3 = [1, 2, 3, 2, 1]"
proof (intro conjI impI)
  assume "- 32768 \<le> x * 2 ^ fb \<and> x * 2 ^ fb \<le> 32767"
  then have "quantize1 x fb = np_round (x * 2 ^ fb)" by (simp add: quantize1_in_range)
  then show "is_round_half_even (quantize1 x fb) (x * 2 ^ fb)"
    using np_round_err [of "x * 2 ^ fb"] np_round_tie [of "x * 2 ^ fb"]
    by (simp add: is_round_half_even_def)
next
  assume "\<bar>x\<bar> \<le> 0.999969"
  then have "np_clip x (- 0.999969) 0.999969 = x" by (auto simp: np_clip_def)
  then have "float_to_q15_1 x = np_round (x * 2 ^ 15)" by (simp add: float_to_q15_1_eq)
  then show "is_round_half_even (float_to_q15_1 x) (x * 2 ^ 15)"
    using np_round_err [of "x * 2 ^ 15"] np_round_tie [of "x * 2 ^ 15"]
    by (simp add: is_round_half_even_def)
next
  show "quantize [0.1, 0.2, 0.4, 0.2, 0.1] 3 = [1, 2, 3, 2, 1]"
    by (simp only: quantize_def list.map quantize1_tenth quantize1_fifth quantize1_two_fifths)
qed

theorem quantize_rounds_half_even_witness:
  "- 32768 \<le> (5 / 16 :: real) * 2 ^ 3 \<and> (5 / 16 :: real) * 2 ^ 3 \<le> 32767 \<and>
   is_round_half_even (quantize1 (5 / 16) 3) (5 / 16 * 2 ^ 3) \<and>
   quantize1 (5 / 16) 3 = 2 \<and> quantize1 (7 / 16) 3 = 4 \<and>
   \<bar>5 / 16 :: real\<bar> \<le> 0.999969 \<and>
   is_round_half_even (float_to_q15_1 (5 / 16)) (5 / 16 * 2 ^ 15)"
  using quantize_rounds_half_even [of "5 / 16" 3]
  by (simp add: quantize1_tie_down quantize1_tie_up)

subsection \<open>Saturation is not counted\<close>

lemma np_round_one_q15: "np_round (1 * 2 ^ 15) = 32768"
  using np_round_eqI [of "1 * 2 ^ 15" 32768] by simp

lemma np_round_example_q15: "np_round (0.99997 * 2 ^ 15) = 32767"
  by (rule np_round_eqI) simp

text \<open>
  The inputs \<open>[1]\<close> and \<open>[0.99997]\<close> quantize to the same coefficients and the same
  reconstructed values, although the clamp changes one value of the first input and none of
  the second: what the quantizer produces does not determine a saturation count, so none is
  recorded (claim C7).
\<close>

theorem saturation_count_counterexample:
  "quantize [1] 15 = quantize [0.99997] 15 \<and>
   dequantize (quantize [1] 15) 15 = dequantize (quantize [0.99997] 15) 15 \<and>
   saturation_count [1] 15 = 1 \<and> saturation_count [0.99997] 15 = 0"
proof -
  have q1: "quantize1 1 15 = 32767" by (rule quantize1_sat_hi) simp_all
  have c1: "was_clamped 1 15"
    by (simp only: was_clamped_iff np_round_one_q15) simp
  have c2: "\<not> was_clamped 0.99997 15"
    by (simp only: was_clamped_iff np_round_example_q15) simp
  have "quantize [1] 15 = [32767]" "quantize [0.99997] 15 = [32767]"
    by (simp_all only: quantize_def list.map q1 quantize1_example)
  moreover have "saturation_count [1] 15 = 1" "saturation_count [0.99997] 15 = 0"
    using c1 c2 by (simp_all add: saturation_count_def)
  ultimately show ?thesis by simp
qed

section \<open>Hex coefficient files\<close>

subsection \<open>Digits and lines\<close>

lemma of_char_hex_digit_upper:
  "d < 16 \<Longrightarrow> (of_char (hex_digit_upper d) :: nat) = (if d < 10 then 48 + d else 55 + d)"
  by (simp add: hex_digit_upper_def)

lemma hex_val_hex_digit_upper: "d < 16 \<Longrightarrow> hex_val (hex_digit_upper d) = Some d"
  by (simp add: hex_val_def of_char_hex_digit_upper Let_def)

lemma hex_digit_upper_not_space: "d < 16 \<Longrightarrow> \<not> is_space (hex_digit_upper d)"
  by (simp add: is_space_def of_char_hex_digit_upper Let_def)

lemma hex_digit_upper_neq:
  assumes "d < 16" and "(of_char c :: nat) < 48 \<or> (57 < (of_char c :: nat) \<and> (of_char c :: nat) < 65) \<or> 70 < (of_char c :: nat)"
  shows "hex_digit_upper d \<noteq> c"
proof
  assume "hex_digit_upper d = c"
  then have "(of_char c :: nat) = (if d < 10 then 48 + d else 55 + d)"
    using assms(1) of_char_hex_digit_upper by blast
  then show False using assms by (auto split: if_splits)
qed

lemma hex_digit_upper_specials:
  assumes "d < 16"
  shows "hex_digit_upper d \<noteq> newline" "hex_digit_upper d \<noteq> CHR ''_''"
    "hex_digit_upper d \<noteq> CHR ''-''" "hex_digit_upper d \<noteq> CHR ''+''"
    "hex_digit_upper d \<noteq> CHR ''x''" "hex_digit_upper d \<noteq> CHR ''X''"
  using assms by (simp_all add: hex_digit_upper_neq newline_def)

lemma hex_digit_upper_table: "map hex_digit_upper [0..<16] = ''0123456789ABCDEF''"
  by code_simp

lemma hex_digit_upper_in: "d < 16 \<Longrightarrow> hex_digit_upper d \<in> upper_hex_digits"
proof -
  assume "d < 16"
  then have "hex_digit_upper d \<in> set (map hex_digit_upper [0..<16])" by simp
  then show ?thesis by (simp only: hex_digit_upper_table upper_hex_digits_def)
qed


lemma format_X_1: "n < 16 \<Longrightarrow> format_X n = [hex_digit_upper n]"
  by (subst format_X.simps) simp

lemma format_X_step: "16 \<le> n \<Longrightarrow> format_X n = format_X (n div 16) @ [hex_digit_upper (n mod 16)]"
  by (subst format_X.simps) simp

lemma format_X_2:
  assumes "16 \<le> n" and "n < 256"
  shows "format_X n = [hex_digit_upper (n div 16), hex_digit_upper (n mod 16)]"
proof -
  have "n div 16 < 16" using assms(2) by simp
  then have "format_X (n div 16) = [hex_digit_upper (n div 16)]" by (rule format_X_1)
  then show ?thesis by (simp only: format_X_step [OF assms(1)] append.simps)
qed

lemma format_X_3:
  assumes "256 \<le> n" and "n < 4096"
  shows "format_X n = [hex_digit_upper (n div 256), hex_digit_upper (n div 16 mod 16),
                 hex_digit_upper (n mod 16)]"
proof -
  have b: "16 \<le> n div 16" "n div 16 < 256" "16 \<le> n" using assms by simp_all
  have d: "n div 16 div 16 = n div 256" by (simp add: div_mult2_eq [symmetric])
  have "format_X (n div 16) = [hex_digit_upper (n div 16 div 16), hex_digit_upper (n div 16 mod 16)]"
    using b(1,2) by (rule format_X_2)
  then show ?thesis by (simp only: format_X_step [OF b(3)] append.simps d)
qed

lemma format_X_4:
  assumes "4096 \<le> n" and "n < 65536"
  shows "format_X n = [hex_digit_upper (n div 4096), hex_digit_upper (n div 256 mod 16),
                 hex_digit_upper (n div 16 mod 16), hex_digit_upper (n mod 16)]"
proof -
  have b: "256 \<le> n div 16" "n div 16 < 4096" "16 \<le> n" using assms by simp_all
  have d: "n div 16 div 256 = n div 4096" "n div 16 div 16 = n div 256"
    by (simp_all add: div_mult2_eq [symmetric])
  have "format_X (n div 16) =
      [hex_digit_upper (n div 16 div 256), hex_digit_upper (n div 16 div 16 mod 16),
       hex_digit_upper (n div 16 mod 16)]"
    using b(1,2) by (rule format_X_3)
  then show ?thesis by (simp only: format_X_step [OF b(3)] append.simps d)
qed

lemma hex_digit_upper_0: "hex_digit_upper 0 = CHR ''0''"
  by code_simp

lemma zero_pad_4:
  "zero_pad 4 [a] = [CHR ''0'', CHR ''0'', CHR ''0'', a]"
  "zero_pad 4 [a, b] = [CHR ''0'', CHR ''0'', a, b]"
  "zero_pad 4 [a, b, c] = [CHR ''0'', a, b, c]"
  "zero_pad 4 [a, b, c, d] = [a, b, c, d]"
  by (simp_all add: zero_pad_def numeral_3_eq_3 numeral_2_eq_2)

lemma format_04X_digits:
  assumes "n < 65536"
  shows "format_04X n =
     [hex_digit_upper (n div 4096), hex_digit_upper (n div 256 mod 16),
      hex_digit_upper (n div 16 mod 16), hex_digit_upper (n mod 16)]"
proof -
  consider "n < 16" | "16 \<le> n" "n < 256" | "256 \<le> n" "n < 4096" | "4096 \<le> n"
    by linarith
  then show ?thesis
  proof cases
    case 1
    then have "format_04X n = [CHR ''0'', CHR ''0'', CHR ''0'', hex_digit_upper n]"
      by (simp only: format_04X_def format_X_1 zero_pad_4)
    then show ?thesis using 1 by (simp add: hex_digit_upper_0)
  next
    case 2
    then have "format_04X n =
        [CHR ''0'', CHR ''0'', hex_digit_upper (n div 16), hex_digit_upper (n mod 16)]"
      by (simp only: format_04X_def format_X_2 zero_pad_4)
    then show ?thesis using 2 by (simp add: hex_digit_upper_0)
  next
    case 3
    then have "format_04X n =
        [CHR ''0'', hex_digit_upper (n div 256), hex_digit_upper (n div 16 mod 16),
         hex_digit_upper (n mod 16)]"
      by (simp only: format_04X_def format_X_3 zero_pad_4)
    then show ?thesis using 3 by (simp add: hex_digit_upper_0)
  next
    case 4
    then show ?thesis using assms
      by (simp only: format_04X_def format_X_4 zero_pad_4)
  qed
qed


lemma hex_value_4:
  assumes "a < 16" "b < 16" "c < 16" "d < 16"
  shows "hex_value [hex_digit_upper a, hex_digit_upper b, hex_digit_upper c, hex_digit_upper d]
           = 4096 * a + 256 * b + 16 * c + d"
  using assms by (simp add: hex_value_def hex_val_hex_digit_upper)

lemma nibbles_sum:
  "4096 * (n div 4096) + 256 * (n div 256 mod 16) + 16 * (n div 16 mod 16) + n mod 16 = (n::nat)"
proof -
  have d: "n div 16 div 16 = n div 256" "n div 256 div 16 = n div 4096"
    by (simp_all add: div_mult2_eq [symmetric])
  have "n = 16 * (n div 16) + n mod 16" by simp
  moreover have "n div 16 = 16 * (n div 16 div 16) + n div 16 mod 16" by simp
  moreover have "n div 256 = 16 * (n div 256 div 16) + n div 256 mod 16" by simp
  ultimately show ?thesis unfolding d by linarith
qed


lemma np_uint16_less: "np_uint16 c < 65536"
  by (simp add: np_uint16_def nat_less_iff)

lemma format_04X_shape:
  assumes "n < 65536"
  obtains a b c d where "a < 16" "b < 16" "c < 16" "d < 16"
    "format_04X n = [hex_digit_upper a, hex_digit_upper b, hex_digit_upper c, hex_digit_upper d]"
    "4096 * a + 256 * b + 16 * c + d = n"
proof
  show "n div 4096 < 16" using assms by simp
  show "n div 256 mod 16 < 16" "n div 16 mod 16 < 16" "n mod 16 < 16" by simp_all
  show "format_04X n =
     [hex_digit_upper (n div 4096), hex_digit_upper (n div 256 mod 16),
      hex_digit_upper (n div 16 mod 16), hex_digit_upper (n mod 16)]"
    using assms by (rule format_04X_digits)
  show "4096 * (n div 4096) + 256 * (n div 256 mod 16) + 16 * (n div 16 mod 16) + n mod 16 = n"
    by (rule nibbles_sum)
qed

lemma is_space_newline: "is_space newline"
  by (simp add: is_space_def newline_def)

lemma strip_digits:
  assumes "a < 16" "b < 16" "c < 16" "d < 16"
  shows "strip [hex_digit_upper a, hex_digit_upper b, hex_digit_upper c, hex_digit_upper d]
           = [hex_digit_upper a, hex_digit_upper b, hex_digit_upper c, hex_digit_upper d]"
  using assms by (simp add: strip_def hex_digit_upper_not_space)

lemma strip_line:
  assumes "a < 16" "b < 16" "c < 16" "d < 16"
  shows "strip ([hex_digit_upper a, hex_digit_upper b, hex_digit_upper c, hex_digit_upper d]
                 @ [newline])
           = [hex_digit_upper a, hex_digit_upper b, hex_digit_upper c, hex_digit_upper d]"
  using assms by (simp add: strip_def hex_digit_upper_not_space is_space_newline)

lemma int_base16_digits:
  assumes "a < 16" "b < 16" "c < 16" "d < 16"
  shows "int_base16 [hex_digit_upper a, hex_digit_upper b, hex_digit_upper c, hex_digit_upper d]
           = Inr (int (4096 * a + 256 * b + 16 * c + d))"
proof -
  let ?l = "[hex_digit_upper a, hex_digit_upper b, hex_digit_upper c, hex_digit_upper d]"
  have p: "parse_digits 0 False ?l = Some (4096 * a + 256 * b + 16 * c + d)"
    using assms by (simp add: hex_digit_upper_specials hex_val_hex_digit_upper)
  have u: "parse_unsigned ?l = Some (4096 * a + 256 * b + 16 * c + d)"
    using assms(2) p by (simp add: parse_unsigned_def hex_digit_upper_specials)
  show ?thesis
    using assms(1) u
    by (simp add: int_base16_def Let_def strip_digits [OF assms] hex_digit_upper_specials)
qed

lemma readlines_from_line:
  "newline \<notin> set l \<Longrightarrow>
   readlines_from cur (l @ newline # rest) = (cur @ l @ [newline]) # readlines_from [] rest"
  by (induction l arbitrary: cur) auto

lemma format_04X_no_newline: "n < 65536 \<Longrightarrow> newline \<notin> set (format_04X n)"
  by (erule format_04X_shape) (simp add: hex_digit_upper_specials(1) [THEN not_sym])

lemma readlines_export:
  "readlines (export_coeffs_hex coeffs) = map (\<lambda>c. format_04X (np_uint16 c) @ [newline]) coeffs"
proof (induction coeffs)
  case Nil
  then show ?case by (simp add: readlines_def)
next
  case (Cons c coeffs)
  have "newline \<notin> set (format_04X (np_uint16 c))"
    by (rule format_04X_no_newline) (rule np_uint16_less)
  then have "readlines_from [] (format_04X (np_uint16 c) @ newline # export_coeffs_hex coeffs)
      = ([] @ format_04X (np_uint16 c) @ [newline]) # readlines_from [] (export_coeffs_hex coeffs)"
    by (rule readlines_from_line)
  then show ?case using Cons by (simp add: readlines_def)
qed

lemma import_line:
  assumes "- 32768 \<le> c" and "c \<le> 32767"
  shows "int_base16 (strip (format_04X (np_uint16 c) @ [newline])) = Inr (c mod 65536)"
proof -
  obtain a b e d where h: "a < 16" "b < 16" "e < 16" "d < 16"
    "format_04X (np_uint16 c)
       = [hex_digit_upper a, hex_digit_upper b, hex_digit_upper e, hex_digit_upper d]"
    "4096 * a + 256 * b + 16 * e + d = np_uint16 c"
    using format_04X_shape [OF np_uint16_less [of c]] by metis
  have "int_base16 (strip (format_04X (np_uint16 c) @ [newline])) = Inr (int (np_uint16 c))"
    by (simp only: h(5) strip_line [OF h(1-4)] int_base16_digits [OF h(1-4)] h(6))
  then show ?thesis by (simp add: np_uint16_def)
qed

lemma mod_65536_int16:
  assumes r: "- 32768 \<le> (c::int)" "c \<le> 32767"
  shows "c mod 65536 = (if c < 0 then c + 65536 else c)"
proof (cases "c < 0")
  case True
  have "(c + 65536) mod 65536 = c + 65536"
    by (rule mod_pos_pos_trivial) (use r True in simp_all)
  moreover have "(c + 65536) mod 65536 = c mod 65536" by simp
  ultimately show ?thesis using True by simp
next
  case False
  then show ?thesis using r by (simp add: mod_pos_pos_trivial)
qed

lemma import_lines_export:
  assumes "\<forall>c \<in> set coeffs. - 32768 \<le> c \<and> c \<le> 32767"
  shows "import_lines (map (\<lambda>c. format_04X (np_uint16 c) @ [newline]) coeffs) acc
           = Inr (acc @ coeffs)"
  using assms
proof (induction coeffs arbitrary: acc)
  case Nil
  then show ?case by simp
next
  case (Cons c coeffs)
  then have r: "- 32768 \<le> c" "c \<le> 32767" by simp_all
  have m: "c mod 65536 = (if c < 0 then c + 65536 else c)"
    using r by (rule mod_65536_int16)
  have d: "(if c mod 65536 > 32767 then c mod 65536 - 65536 else c mod 65536) = c"
    using r by (simp add: m)
  show ?case using Cons by (simp add: import_line [OF r] Let_def d)
qed


lemma export_concat:
  "export_coeffs_hex coeffs
     = concat (map (\<lambda>l. l @ [newline]) (map (\<lambda>c. format_04X (np_uint16 c)) coeffs))"
  by (induction coeffs) simp_all

lemma hex_line_props:
  assumes "- 32768 \<le> c" and "c \<le> 32767"
  shows "length (format_04X (np_uint16 c)) = 4"
    and "set (format_04X (np_uint16 c)) \<subseteq> upper_hex_digits"
    and "hex_value (format_04X (np_uint16 c)) = twos_complement16 c"
proof -
  obtain a b e d where h: "a < 16" "b < 16" "e < 16" "d < 16"
    "format_04X (np_uint16 c)
       = [hex_digit_upper a, hex_digit_upper b, hex_digit_upper e, hex_digit_upper d]"
    "4096 * a + 256 * b + 16 * e + d = np_uint16 c"
    using format_04X_shape [OF np_uint16_less [of c]] by metis
  show "length (format_04X (np_uint16 c)) = 4" by (simp add: h(5))
  show "set (format_04X (np_uint16 c)) \<subseteq> upper_hex_digits"
    using h(1-4) by (simp add: h(5) hex_digit_upper_in)
  have "hex_value (format_04X (np_uint16 c)) = np_uint16 c"
    by (simp only: h(5) hex_value_4 [OF h(1-4)] h(6))
  also have "\<dots> = twos_complement16 c"
    by (simp add: np_uint16_def twos_complement16_def mod_65536_int16 [OF assms])
  finally show "hex_value (format_04X (np_uint16 c)) = twos_complement16 c" .
qed



lemma hex_digit_upper_nth: "d < 16 \<Longrightarrow> hex_digit_upper d = ''0123456789ABCDEF'' ! d"
proof -
  assume d: "d < 16"
  then have "map hex_digit_upper [0..<16] ! d = hex_digit_upper d" by simp
  then show ?thesis by (simp only: hex_digit_upper_table)
qed

lemma format_04X_eval:
  assumes "n < 65536"
  shows "format_04X n =
     [''0123456789ABCDEF'' ! (n div 4096), ''0123456789ABCDEF'' ! (n div 256 mod 16),
      ''0123456789ABCDEF'' ! (n div 16 mod 16), ''0123456789ABCDEF'' ! (n mod 16)]"
proof -
  have "n div 4096 < 16" using assms by simp
  then show ?thesis
    by (simp only: format_04X_digits [OF assms] hex_digit_upper_nth mod_less_divisor zero_less_numeral)
qed

subsection \<open>Export then import\<close>

text \<open>
  Claim C2. For every coefficient array whose elements all lie in \<open>[-2^(w-1), 2^(w-1)-1]\<close>,
  importing the hex text produced by exporting the array yields exactly the array. The
  sources fix the word width at \<open>w = 16\<close>: \<open>export_coeffs_hex\<close> formats \<open>np.uint16(c)\<close>
  with \<open>04X\<close>, and the import of debug\_filter.py subtracts \<open>65536\<close> from values above
  \<open>32767\<close>.
\<close>

theorem hex_roundtrip:
  assumes "\<forall>c \<in> set coeffs. - (2 ^ (16 - 1)) \<le> c \<and> c \<le> 2 ^ (16 - 1) - 1"
  shows "import_hex (export_coeffs_hex coeffs) = Inr coeffs"
proof -
  have r: "\<forall>c \<in> set coeffs. - 32768 \<le> c \<and> c \<le> 32767" using assms by simp
  show ?thesis
    using import_lines_export [OF r, of "[]"] by (simp add: import_hex_def readlines_export)
qed

theorem hex_roundtrip_witness:
  "export_coeffs_hex [- 1, 0, 32767, - 32768, 291]
     = ''FFFF'' @ [newline] @ ''0000'' @ [newline] @ ''7FFF'' @ [newline] @ ''8000'' @ [newline]
       @ ''0123'' @ [newline] \<and>
   import_hex (export_coeffs_hex [- 1, 0, 32767, - 32768, 291])
     = Inr [- 1, 0, 32767, - 32768, 291]"
proof -
  have "export_coeffs_hex [- 1, 0, 32767, - 32768, 291]
     = ''FFFF'' @ [newline] @ ''0000'' @ [newline] @ ''7FFF'' @ [newline] @ ''8000'' @ [newline]
       @ ''0123'' @ [newline]"
    by (simp add: np_uint16_def format_04X_eval)
  moreover have "import_hex (export_coeffs_hex [- 1, 0, 32767, - 32768, 291])
     = Inr [- 1, 0, 32767, - 32768, 291]"
    using hex_roundtrip [of "[- 1, 0, 32767, - 32768, 291]"] by simp
  ultimately show ?thesis by (rule conjI)
qed

subsection \<open>Format of the exported text\<close>

text \<open>
  Claim C9. The exported text is the concatenation, in ascending coefficient index order, of
  one line per coefficient, each line ending in a newline and holding exactly
  \<open>wordBits / 4 = 4\<close> characters, all of them uppercase hexadecimal digits, whose value read
  most significant digit first is the two's-complement bit pattern of the coefficient. So
  there is no prefix, no separator and no blank line.
\<close>

theorem export_hex_format:
  assumes "\<forall>c \<in> set coeffs. - (2 ^ (16 - 1)) \<le> c \<and> c \<le> 2 ^ (16 - 1) - 1"
  shows "\<exists>lines.
           export_coeffs_hex coeffs = concat (map (\<lambda>l. l @ [newline]) lines) \<and>
           length lines = length coeffs \<and>
           (\<forall>i < length coeffs.
              length (lines ! i) = 16 div 4 \<and>
              set (lines ! i) \<subseteq> upper_hex_digits \<and>
              hex_value (lines ! i) = twos_complement16 (coeffs ! i))"
proof (intro exI conjI allI impI)
  let ?lines = "map (\<lambda>c. format_04X (np_uint16 c)) coeffs"
  show "export_coeffs_hex coeffs = concat (map (\<lambda>l. l @ [newline]) ?lines)"
    by (rule export_concat)
  show "length ?lines = length coeffs" by simp
  fix i
  assume i: "i < length coeffs"
  then have "coeffs ! i \<in> set coeffs" by simp
  then have r: "- 32768 \<le> coeffs ! i" "coeffs ! i \<le> 32767" using assms by auto
  show "length (?lines ! i) = 16 div 4" using i hex_line_props(1) [OF r] by simp
  show "set (?lines ! i) \<subseteq> upper_hex_digits" using i hex_line_props(2) [OF r] by simp
  show "hex_value (?lines ! i) = twos_complement16 (coeffs ! i)"
    using i hex_line_props(3) [OF r] by simp
qed

theorem export_hex_format_witness:
  "\<exists>lines.
     export_coeffs_hex [- 2, 255, - 32768] = concat (map (\<lambda>l. l @ [newline]) lines) \<and>
     length lines = 3 \<and>
     length (lines ! 0) = 4 \<and> set (lines ! 0) \<subseteq> upper_hex_digits \<and> hex_value (lines ! 0) = 65534 \<and>
     length (lines ! 1) = 4 \<and> set (lines ! 1) \<subseteq> upper_hex_digits \<and> hex_value (lines ! 1) = 255 \<and>
     length (lines ! 2) = 4 \<and> set (lines ! 2) \<subseteq> upper_hex_digits \<and> hex_value (lines ! 2) = 32768"
proof -
  obtain lines where l:
    "export_coeffs_hex [- 2, 255, - 32768] = concat (map (\<lambda>l. l @ [newline]) lines)"
    "length lines = length [- 2, 255, - 32768 :: int]"
    "\<forall>i < length [- 2, 255, - 32768 :: int].
        length (lines ! i) = 16 div 4 \<and>
        set (lines ! i) \<subseteq> upper_hex_digits \<and>
        hex_value (lines ! i) = twos_complement16 ([- 2, 255, - 32768] ! i)"
    using export_hex_format [of "[- 2, 255, - 32768]"] by auto
  have "length (lines ! 0) = 4 \<and> set (lines ! 0) \<subseteq> upper_hex_digits \<and> hex_value (lines ! 0) = 65534"
    using l(3) [rule_format, of 0] by (simp add: twos_complement16_def)
  moreover have "length (lines ! 1) = 4 \<and> set (lines ! 1) \<subseteq> upper_hex_digits \<and> hex_value (lines ! 1) = 255"
    using l(3) [rule_format, of 1] by (simp add: twos_complement16_def)
  moreover have "length (lines ! 2) = 4 \<and> set (lines ! 2) \<subseteq> upper_hex_digits \<and> hex_value (lines ! 2) = 32768"
    using l(3) [rule_format, of 2] by (simp add: twos_complement16_def)
  ultimately show ?thesis using l(1,2) by auto
qed

section \<open>The streaming harness\<close>

subsection \<open>The loops in closed form\<close>



lemma valid_outputs_append:
  "valid_outputs d (xs @ ys) = valid_outputs d xs @ valid_outputs d ys"
  by (simp add: valid_outputs_def)










subsection \<open>What the drain phase does\<close>



section \<open>The design pipeline\<close>

subsection \<open>Symmetry of the windowed kernel\<close>

lemma sinc_even: "sinc (- x) = sinc x"
  by (simp add: sinc_def)

lemma length_hamming: "length (hamming M) = M"
  by (simp add: hamming_def)

lemma real_mirror: "i < N \<Longrightarrow> real (N - 1 - i) = real N - 1 - real i"
proof -
  assume a: "i < N"
  have "N - 1 - i = N - (i + 1)" by simp
  moreover have "real (N - (i + 1)) = real N - real (i + 1)"
    by (rule of_nat_diff) (use a in simp)
  ultimately show ?thesis by simp
qed

lemma mirror_angle:
  "(a::real) \<noteq> 0 \<Longrightarrow> - pi + (a - b) * (2 * pi / a) = - (- pi + b * (2 * pi / a))"
  by (simp add: field_simps)

lemma hamming_symmetric:
  assumes "i < M"
  shows "hamming M ! (M - 1 - i) = hamming M ! i"
proof (cases "M \<le> 1")
  case True
  then show ?thesis using assms by (simp add: hamming_def)
next
  case False
  let ?a = "real (M - 1)"
  have j: "M - 1 - i < M" using assms by simp
  have nz: "?a \<noteq> 0" using False by simp
  have "real (M - 1 - i) = ?a - real i"
    by (rule of_nat_diff) (use assms in simp)
  then have "- pi + real (M - 1 - i) * (2 * pi / ?a) = - (- pi + real i * (2 * pi / ?a))"
    by (simp only: mirror_angle [OF nz])
  then have c: "cos (- pi + real (M - 1 - i) * (2 * pi / ?a))
      = cos (- pi + real i * (2 * pi / ?a))"
    by (simp only: cos_minus)
  have "hamming M ! (M - 1 - i) = 0.54 + 0.46 * cos (- pi + real (M - 1 - i) * (2 * pi / ?a))"
    using False j by (simp add: hamming_def del: of_nat_diff)
  moreover have "hamming M ! i = 0.54 + 0.46 * cos (- pi + real i * (2 * pi / ?a))"
    using False assms by (simp add: hamming_def)
  ultimately show ?thesis by (simp only: c)
qed


lemma firwin_tap_symmetric:
  assumes "i < N"
  shows "firwin_tap N left right (N - 1 - i) = firwin_tap N left right i"
proof -
  have m: "real (N - 1 - i) - 0.5 * (real N - 1) = - (real i - 0.5 * (real N - 1))"
    by (simp only: real_mirror [OF assms]) (simp add: field_simps)
  have s: "\<And>a. sinc (a * (real (N - 1 - i) - 0.5 * (real N - 1)))
                = sinc (a * (real i - 0.5 * (real N - 1)))"
    by (simp only: m mult_minus_right sinc_even)
  show ?thesis
    by (simp only: firwin_tap_def s hamming_symmetric [OF assms])
qed

lemma windowed_taps:
  "map (\<lambda>(a, b). a * b) (zip (map G (map (\<lambda>i. real i - al) [0..<N])) (hamming N))
     = map (\<lambda>i. G (real i - al) * hamming N ! i) [0..<N]"
  by (rule nth_equalityI) (simp_all add: length_hamming)

lemma firwin_valid:
  assumes "0 < left" "left < right" "right < 1" "0 \<le> numtaps"
  shows "\<exists>s. firwin numtaps left right
               = Inr (map (\<lambda>i. firwin_tap (nat numtaps) left right i / s) [0..<nat numtaps])"
proof -
  have n: "real_of_int numtaps = real (nat numtaps)" using assms(4) by simp
  have c: "\<not> (min left right \<le> 0 \<or> max left right \<ge> 1)" "\<not> right - left \<le> 0"
    "\<not> numtaps < 0"
    using assms by auto
  show ?thesis
    apply (simp only: firwin_def c if_False Let_def n windowed_taps)
    apply (simp only: map_map comp_def firwin_tap_def)
    apply (rule exI)
    apply (rule refl)
    done
qed

lemma firwin_invalid:
  assumes "left \<le> 0 \<or> right \<le> left \<or> 1 \<le> right \<or> numtaps < 0"
  shows "firwin numtaps left right = Inl ValueError"
  using assms by (auto simp: firwin_def)


subsection \<open>When the design returns\<close>

lemma design_unfold:
  assumes "fs \<noteq> 0"
  shows "design_bandpass_fir_filter fs (f0 # f1 # rest) numtaps frac_bits =
     (case firwin numtaps (f0 / (0.5 * real_of_int fs)) (f1 / (0.5 * real_of_int fs)) of
        Inl e \<Rightarrow> Inl e
      | Inr b_float \<Rightarrow>
          if frac_bits < 0 then Inl ValueError
          else if quantize b_float (nat frac_bits) = [] then Inl ValueError
               else Inr (quantize b_float (nat frac_bits),
                         dequantize (quantize b_float (nat frac_bits)) (nat frac_bits),
                         b_float))"
  using assms by (simp add: design_bandpass_fir_filter_def Let_def split: sum.splits)

lemma design_valid:
  assumes "fs \<noteq> 0"
    and "0 < f0 / (0.5 * real_of_int fs)"
    and "f0 / (0.5 * real_of_int fs) < f1 / (0.5 * real_of_int fs)"
    and "f1 / (0.5 * real_of_int fs) < 1"
    and "1 \<le> numtaps" and "0 \<le> frac_bits"
  shows "\<exists>s. design_bandpass_fir_filter fs (f0 # f1 # rest) numtaps frac_bits =
     Inr (quantize (map (\<lambda>i. firwin_tap (nat numtaps) (f0 / (0.5 * real_of_int fs))
                                 (f1 / (0.5 * real_of_int fs)) i / s) [0..<nat numtaps])
            (nat frac_bits),
          dequantize
            (quantize (map (\<lambda>i. firwin_tap (nat numtaps) (f0 / (0.5 * real_of_int fs))
                                   (f1 / (0.5 * real_of_int fs)) i / s) [0..<nat numtaps])
               (nat frac_bits))
            (nat frac_bits),
          map (\<lambda>i. firwin_tap (nat numtaps) (f0 / (0.5 * real_of_int fs))
                      (f1 / (0.5 * real_of_int fs)) i / s) [0..<nat numtaps])"
proof -
  let ?l = "f0 / (0.5 * real_of_int fs)" and ?r = "f1 / (0.5 * real_of_int fs)"
  have n0: "0 \<le> numtaps" using assms(5) by simp
  obtain s where s: "firwin numtaps ?l ?r
      = Inr (map (\<lambda>i. firwin_tap (nat numtaps) ?l ?r i / s) [0..<nat numtaps])"
    using firwin_valid [OF assms(2,3,4) n0] by blast
  have ne: "quantize (map (\<lambda>i. firwin_tap (nat numtaps) ?l ?r i / s) [0..<nat numtaps])
              (nat frac_bits) \<noteq> []"
    using assms(5) by (simp add: quantize_def)
  have nf: "\<not> frac_bits < 0" using assms(6) by simp
  show ?thesis
    apply (rule exI [of _ s])
    apply (simp only: design_unfold [OF assms(1)] s sum.case nf ne if_False)
    done
qed

lemma design_invalid:
  assumes "fs \<noteq> 0"
    and "f0 / (0.5 * real_of_int fs) \<le> 0 \<or>
         f1 / (0.5 * real_of_int fs) \<le> f0 / (0.5 * real_of_int fs) \<or>
         1 \<le> f1 / (0.5 * real_of_int fs) \<or> numtaps < 1"
  shows "design_bandpass_fir_filter fs (f0 # f1 # rest) numtaps frac_bits = Inl ValueError"
proof -
  let ?l = "f0 / (0.5 * real_of_int fs)" and ?r = "f1 / (0.5 * real_of_int fs)"
  show ?thesis
  proof (cases "?l \<le> 0 \<or> ?r \<le> ?l \<or> 1 \<le> ?r \<or> numtaps < 0")
    case True
    then have "firwin numtaps ?l ?r = Inl ValueError" by (rule firwin_invalid)
    then show ?thesis by (simp only: design_unfold [OF assms(1)] sum.case)
  next
    case False
    then have v: "0 < ?l" "?l < ?r" "?r < 1" and n: "numtaps = 0" using assms(2) by auto
    have n0: "0 \<le> numtaps" using n by simp
    obtain s where s: "firwin numtaps ?l ?r
        = Inr (map (\<lambda>i. firwin_tap (nat numtaps) ?l ?r i / s) [0..<nat numtaps])"
      using firwin_valid [OF v n0] by blast
    have "firwin numtaps ?l ?r = Inr []" using s n by simp
    then show ?thesis
      by (simp only: design_unfold [OF assms(1)] sum.case) (simp add: quantize_def)
  qed
qed


lemma valid_spec_normalised:
  assumes "0 < low" "low < high" "high < real_of_int fs / 2"
  shows "fs \<noteq> 0" "0 < low / (0.5 * real_of_int fs)"
    "low / (0.5 * real_of_int fs) < high / (0.5 * real_of_int fs)"
    "high / (0.5 * real_of_int fs) < 1"
proof -
  have p: "0 < 0.5 * real_of_int fs" using assms by simp
  show "fs \<noteq> 0" using p by auto
  show "0 < low / (0.5 * real_of_int fs)" using p assms(1) by (rule_tac divide_pos_pos)
  show "low / (0.5 * real_of_int fs) < high / (0.5 * real_of_int fs)"
    using p assms(2) by (rule_tac divide_strict_right_mono)
  have "high < 0.5 * real_of_int fs" using assms(3) by simp
  then show "high / (0.5 * real_of_int fs) < 1" using p by (simp only: divide_less_eq_1_pos)
qed

lemma quantize1_range: "- 32768 \<le> quantize1 x fb \<and> quantize1 x fb \<le> 32767"
  by (simp add: quantize1_def Let_def astype_int16_def)

lemma design_returns:
  assumes "0 < low" "low < high" "high < real_of_int fs / 2" "1 \<le> numtaps" "0 \<le> frac_bits"
  shows "\<exists>b_float. design_bandpass_fir_filter fs (low # high # rest) numtaps frac_bits =
           Inr (quantize b_float (nat frac_bits),
                dequantize (quantize b_float (nat frac_bits)) (nat frac_bits), b_float)"
  using design_valid [OF valid_spec_normalised [OF assms(1,2,3)] assms(4,5), of rest]
  by blast

subsection \<open>Symmetry of the quantized coefficients\<close>

text \<open>
  Claim C5. For every valid bandpass design (\<open>0 < low < high < fs / 2\<close>, at least one tap,
  a non-negative number of fractional bits) the design-then-quantize pipeline returns a
  quantized coefficient array of length \<open>N = numtaps\<close> that is symmetric:
  \<open>coeffs[i] = coeffs[N - 1 - i]\<close> for every index \<open>i\<close> in \<open>[0, N - 1]\<close>. The kernel is
  computed over the reals.
\<close>

theorem design_coeffs_symmetric:
  assumes "0 < low" "low < high" "high < real_of_int fs / 2" "1 \<le> numtaps" "0 \<le> frac_bits"
  shows "\<exists>b_q b_rec b_float.
           design_bandpass_fir_filter fs [low, high] numtaps frac_bits
             = Inr (b_q, b_rec, b_float) \<and>
           length b_q = nat numtaps \<and>
           (\<forall>i < length b_q. b_q ! i = b_q ! (length b_q - 1 - i))"
proof -
  let ?l = "low / (0.5 * real_of_int fs)" and ?r = "high / (0.5 * real_of_int fs)"
  let ?N = "nat numtaps"
  obtain s where d: "design_bandpass_fir_filter fs [low, high] numtaps frac_bits =
     Inr (quantize (map (\<lambda>i. firwin_tap ?N ?l ?r i / s) [0..<?N]) (nat frac_bits),
          dequantize (quantize (map (\<lambda>i. firwin_tap ?N ?l ?r i / s) [0..<?N]) (nat frac_bits))
            (nat frac_bits),
          map (\<lambda>i. firwin_tap ?N ?l ?r i / s) [0..<?N])"
    using design_valid [OF valid_spec_normalised [OF assms(1,2,3)] assms(4,5), of "[]"]
    by blast
  let ?b_q = "quantize (map (\<lambda>i. firwin_tap ?N ?l ?r i / s) [0..<?N]) (nat frac_bits)"
  have len: "length ?b_q = ?N" by (simp add: quantize_def)
  have nth: "\<And>i. i < ?N \<Longrightarrow> ?b_q ! i = quantize1 (firwin_tap ?N ?l ?r i / s) (nat frac_bits)"
    by (simp add: quantize_def)
  have sym: "\<forall>i < length ?b_q. ?b_q ! i = ?b_q ! (length ?b_q - 1 - i)"
  proof (intro allI impI)
    fix i
    assume "i < length ?b_q"
    then have i: "i < ?N" by (simp only: len)
    then have j: "?N - 1 - i < ?N" by simp
    show "?b_q ! i = ?b_q ! (length ?b_q - 1 - i)"
      by (simp only: len nth [OF i] nth [OF j] firwin_tap_symmetric [OF i])
  qed
  show ?thesis using d len sym by blast
qed

theorem design_coeffs_symmetric_witness:
  "\<exists>b_q b_rec b_float.
     design_bandpass_fir_filter 2000 [5, 50] 121 15 = Inr (b_q, b_rec, b_float) \<and>
     length b_q = 121 \<and> b_q ! 0 = b_q ! 120 \<and> b_q ! 17 = b_q ! 103 \<and> b_q ! 59 = b_q ! 61"
proof -
  have h: "0 < (5::real)" "(5::real) < 50" "(50::real) < real_of_int 2000 / 2"
    "(1::int) \<le> 121" "(0::int) \<le> 15"
    by simp_all
  obtain b_q b_rec b_float where
    d: "design_bandpass_fir_filter 2000 [5, 50] 121 15 = Inr (b_q, b_rec, b_float)"
    and len: "length b_q = nat 121"
    and sym: "\<forall>i < length b_q. b_q ! i = b_q ! (length b_q - 1 - i)"
    using design_coeffs_symmetric [OF h] by blast
  have l: "length b_q = 121" using len by simp
  have s0: "b_q ! 0 = b_q ! (121 - 1 - 0)"
    using sym [rule_format, of 0] by (simp add: l)
  have s17: "b_q ! 17 = b_q ! (121 - 1 - 17)"
    using sym [rule_format, of 17] by (simp add: l)
  have s59: "b_q ! 59 = b_q ! (121 - 1 - 59)"
    using sym [rule_format, of 59] by (simp add: l)
  have "b_q ! 0 = b_q ! 120" "b_q ! 17 = b_q ! 103" "b_q ! 59 = b_q ! 61"
    using s0 s17 s59 by simp_all
  then show ?thesis using d l by blast
qed

subsection \<open>Invalid specifications\<close>

text \<open>
  With the negative sample rate \<open>-2000\<close> and passband edges \<open>-5\<close> and \<open>-50\<close> both edges lie
  outside \<open>(0, Nyquist)\<close> and \<open>low \<ge> high\<close>, yet the edges normalised by the Nyquist
  frequency are those of the valid design \<open>fs = 2000\<close>, \<open>fc = [5, 50]\<close>, and the design
  returns the same coefficients instead of failing as claim C6 states.
\<close>

theorem invalid_spec_counterexample:
  "(- 50 :: real) \<le> - 5 \<and>
   design_bandpass_fir_filter (- 2000) [- 5, - 50] 121 15
     = design_bandpass_fir_filter 2000 [5, 50] 121 15 \<and>
   \<not> isl (design_bandpass_fir_filter (- 2000) [- 5, - 50] 121 15)"
proof -
  have e: "design_bandpass_fir_filter (- 2000) [- 5, - 50] 121 15
     = design_bandpass_fir_filter 2000 [5, 50] 121 15"
    by (simp add: design_unfold)
  obtain b_float where "design_bandpass_fir_filter 2000 [5, 50] 121 15 =
      Inr (quantize b_float (nat 15), dequantize (quantize b_float (nat 15)) (nat 15), b_float)"
    using design_returns [of 5 50 2000 121 15 "[]"] by auto
  then have "\<not> isl (design_bandpass_fir_filter 2000 [5, 50] 121 15)" by simp
  then show ?thesis using e by simp
qed

text \<open>
  Claim C6, amended. For a positive sample rate the design returns no coefficients and fails
  with ValueError whenever \<open>numtaps < 1\<close>, or either passband edge lies outside the open
  interval \<open>(0, Nyquist)\<close>, or \<open>low \<ge> high\<close>; for a sample rate of zero it fails with
  ZeroDivisionError. The function has no check and no error type of its own: the errors are
  those of the division, of \<open>firwin\<close> and of the summary it prints.
\<close>

theorem design_rejects_invalid_spec:
  "(0 < fs \<and>
    (numtaps < 1 \<or> low \<le> 0 \<or> real_of_int fs / 2 \<le> low \<or> high \<le> 0 \<or>
     real_of_int fs / 2 \<le> high \<or> high \<le> low) \<longrightarrow>
    design_bandpass_fir_filter fs (low # high # rest) numtaps frac_bits = Inl ValueError) \<and>
   design_bandpass_fir_filter 0 (low # high # rest) numtaps frac_bits = Inl ZeroDivisionError"
proof (intro conjI impI)
  assume a: "0 < fs \<and>
    (numtaps < 1 \<or> low \<le> 0 \<or> real_of_int fs / 2 \<le> low \<or> high \<le> 0 \<or>
     real_of_int fs / 2 \<le> high \<or> high \<le> low)"
  define nyq where "nyq = 0.5 * real_of_int fs"
  have p: "0 < nyq" using a by (simp add: nyq_def)
  have h: "real_of_int fs / 2 = nyq" by (simp add: nyq_def)
  have e1: "low / nyq \<le> 0 \<longleftrightarrow> low \<le> 0"
    using p by (simp add: divide_le_0_iff)
  have e2: "high / nyq \<le> low / nyq \<longleftrightarrow> high \<le> low"
    using p by (simp add: divide_le_cancel)
  have e3: "1 \<le> high / nyq \<longleftrightarrow> nyq \<le> high"
    using p by (simp add: le_divide_eq_1_pos)
  have "low \<le> 0 \<or> high \<le> low \<or> nyq \<le> high \<or> numtaps < 1"
    using a unfolding h by linarith
  then have "low / nyq \<le> 0 \<or> high / nyq \<le> low / nyq \<or> 1 \<le> high / nyq \<or> numtaps < 1"
    by (simp only: e1 e2 e3)
  moreover have "fs \<noteq> 0" using a by simp
  ultimately show
    "design_bandpass_fir_filter fs (low # high # rest) numtaps frac_bits = Inl ValueError"
    unfolding nyq_def by (rule design_invalid [rotated])
next
  show "design_bandpass_fir_filter 0 (low # high # rest) numtaps frac_bits
          = Inl ZeroDivisionError"
    by (simp add: design_bandpass_fir_filter_def)
qed

theorem design_rejects_invalid_spec_witness:
  "(0::int) < 2000 \<and> (5::real) \<le> 50 \<and>
   design_bandpass_fir_filter 2000 [50, 5] 121 15 = Inl ValueError \<and>
   design_bandpass_fir_filter 2000 [5, 50] 0 15 = Inl ValueError \<and>
   design_bandpass_fir_filter 2000 [5, 1000] 121 15 = Inl ValueError \<and>
   design_bandpass_fir_filter 2000 [0, 50] 121 15 = Inl ValueError"
  using design_rejects_invalid_spec [of 2000 121 50 5 "[]" 15]
    design_rejects_invalid_spec [of 2000 0 5 50 "[]" 15]
    design_rejects_invalid_spec [of 2000 121 5 1000 "[]" 15]
    design_rejects_invalid_spec [of 2000 121 0 50 "[]" 15]
  by simp

subsection \<open>Saturation raises nothing\<close>

text \<open>
  Claim C7, amended. The quantizer clamps silently: it returns one coefficient per input
  value, each within \<open>[-32768, 32767]\<close>, and for every valid specification the design
  returns its coefficients whatever number of them were clamped; saturation is never raised
  as an error, and no saturation count is recorded.
\<close>

theorem saturation_is_silent:
  "length (quantize b_float fb) = length b_float \<and>
   (\<forall>q \<in> set (quantize b_float fb). - 32768 \<le> q \<and> q \<le> 32767) \<and>
   (0 < low \<and> low < high \<and> high < real_of_int fs / 2 \<and> 1 \<le> numtaps \<and> 0 \<le> frac_bits \<longrightarrow>
    (\<exists>h. design_bandpass_fir_filter fs [low, high] numtaps frac_bits =
           Inr (quantize h (nat frac_bits),
                dequantize (quantize h (nat frac_bits)) (nat frac_bits), h)))"
proof (intro conjI impI)
  show "length (quantize b_float fb) = length b_float" by (simp add: quantize_def)
  show "\<forall>q \<in> set (quantize b_float fb). - 32768 \<le> q \<and> q \<le> 32767"
    by (auto simp: quantize_def quantize1_range)
next
  assume "0 < low \<and> low < high \<and> high < real_of_int fs / 2 \<and> 1 \<le> numtaps \<and> 0 \<le> frac_bits"
  then show "\<exists>h. design_bandpass_fir_filter fs [low, high] numtaps frac_bits =
           Inr (quantize h (nat frac_bits),
                dequantize (quantize h (nat frac_bits)) (nat frac_bits), h)"
    using design_returns [of low high fs numtaps frac_bits "[]"] by blast
qed

theorem saturation_is_silent_witness:
  "quantize [1, 1 / 2, - 3] 15 = [32767, 16384, - 32768] \<and>
   saturation_count [1, 1 / 2, - 3] 15 = 2 \<and>
   length (quantize [1, 1 / 2, - 3] 15) = 3 \<and>
   (\<exists>h. design_bandpass_fir_filter 2000 [5, 50] 121 20 =
          Inr (quantize h (nat 20), dequantize (quantize h (nat 20)) (nat 20), h))"
proof -
  have q: "quantize1 1 15 = 32767" "quantize1 (1 / 2) 15 = 16384" "quantize1 (- 3) 15 = - 32768"
    by (rule quantize1_sat_hi, simp, simp, rule quantize1_evalI, simp, simp, simp,
        rule quantize1_sat_lo, simp, simp)
  have c: "was_clamped 1 15" "\<not> was_clamped (1 / 2) 15" "was_clamped (- 3) 15"
    using np_round_eqI [of "1 * 2 ^ 15" 32768] np_round_eqI [of "1 / 2 * 2 ^ 15" 16384]
      np_round_eqI [of "- 3 * 2 ^ 15" "- 98304"]
    by (simp_all add: was_clamped_iff)
  have "quantize [1, 1 / 2, - 3] 15 = [32767, 16384, - 32768]"
    by (simp add: quantize_def q)
  moreover have "saturation_count [1, 1 / 2, - 3] 15 = 2"
    by (simp add: saturation_count_def c)
  moreover have "length (quantize [1, 1 / 2, - 3] 15) = 3 \<and>
    (\<exists>h. design_bandpass_fir_filter 2000 [5, 50] 121 20 =
          Inr (quantize h (nat 20), dequantize (quantize h (nat 20)) (nat 20), h))"
    using saturation_is_silent [of "[1, 1 / 2, - 3]" 15 5 50 2000 121 20] by simp
  ultimately show ?thesis by blast
qed

end
